theory Spec2Isabelle
  imports Main
begin

section \<open>Sort strategy library (buildTreeTableColumns.tsx)\<close>

text \<open>
  Cell values are JavaScript values. The comparators only test them with \<open>===\<close>, which on
  primitives is equality of the value and on arrays and objects is equality of the reference
  (\<open>VRef\<close> carries the identity). Numbers are kept to integers, so \<open>NaN\<close> is outside the model.
\<close>

datatype js_value =
    VUndefined
  | VNull
  | VBool bool
  | VNum int
  | VStr string
  | VRef nat

text \<open>
  \<open>row.original\<close> of a table row: the optional \<open>isLoading\<close> flag (absent is \<open>None\<close>) and
  the values the row holds, by column id.
\<close>

record table_row =
  isLoading :: "bool option"
  rowValues :: "(string \<times> js_value) list"

text \<open>The truthiness of an optional boolean: \<open>undefined\<close> and \<open>false\<close> are falsy.\<close>

fun truthy_flag :: "bool option \<Rightarrow> bool" where
  "truthy_flag None = False"
| "truthy_flag (Some b) = b"

text \<open>A sorting function of the table library: two rows and the column id to a number.\<close>

type_synonym 'r sortingFn = "'r \<Rightarrow> 'r \<Rightarrow> string \<Rightarrow> int"

definition withLoadingStateSort :: "table_row sortingFn \<Rightarrow> table_row sortingFn" where
  "withLoadingStateSort sortFn rowA rowB columnId =
     (if isLoading rowA \<noteq> isLoading rowB
      then (if truthy_flag (isLoading rowA) then 1 else - 1)
      else sortFn rowA rowB columnId)"

text \<open>An enum option of an attribute, and the attribute data the comparator reads.\<close>

record enum_item =
  item_value :: js_value
  item_label :: string

record AttributeData =
  attrib_enum :: "enum_item list option"
  attrib_type :: "string option"

text \<open>\<open>Array.prototype.findIndex\<close>: the index of the first match, \<open>-1\<close> when there is none.\<close>

fun findIndex_from :: "int \<Rightarrow> ('a \<Rightarrow> bool) \<Rightarrow> 'a list \<Rightarrow> int" where
  "findIndex_from i p [] = - 1"
| "findIndex_from i p (x # xs) = (if p x then i else findIndex_from (i + 1) p xs)"

definition findIndex :: "('a \<Rightarrow> bool) \<Rightarrow> 'a list \<Rightarrow> int" where
  "findIndex p xs = findIndex_from 0 p xs"

text \<open>
  \<open>attribSort\<close>. The helper \<open>getCellValue\<close> (utils/cellUtils) and the table library's
  \<open>sortingFns.datetime\<close> and \<open>sortingFns.alphanumeric\<close> are parameters. The attribute is
  optional; \<open>attrib && attrib.enum\<close> holds for every array, the empty one included.
\<close>

definition attribSort ::
  "(table_row \<Rightarrow> string \<Rightarrow> js_value) \<Rightarrow> table_row sortingFn \<Rightarrow> table_row sortingFn \<Rightarrow>
   table_row \<Rightarrow> table_row \<Rightarrow> string \<Rightarrow> AttributeData option \<Rightarrow> int" where
  "attribSort getCellValue datetime alphanumeric rowA rowB columnId attrib =
     (let valueA = getCellValue rowA columnId;
          valueB = getCellValue rowB columnId
      in case (case attrib of None \<Rightarrow> None | Some a \<Rightarrow> attrib_enum a) of
           Some opts \<Rightarrow>
             (let indexA = findIndex (\<lambda>opt. item_value opt = valueA) opts;
                  indexB = findIndex (\<lambda>opt. item_value opt = valueB) opts
              in if indexA - indexB < 0 then 1 else - 1)
         | None \<Rightarrow>
             (let ty = (case attrib of None \<Rightarrow> None | Some a \<Rightarrow> attrib_type a)
              in if ty = Some ''datetime'' then datetime rowA rowB columnId
                 else if ty = Some ''boolean'' then
                   (let boolA = (if valueA = VBool True then 1 else 0);
                        boolB = (if valueB = VBool True then 1 else 0)
                    in boolA - boolB)
                 else alphanumeric rowA rowB columnId))"

text \<open>
  A stand-in for \<open>getCellValue\<close> on concrete rows: the value stored under the column id,
  \<open>undefined\<close> when the row has none.
\<close>

definition lookupCell :: "table_row \<Rightarrow> string \<Rightarrow> js_value" where
  "lookupCell row columnId =
     (case map_of (rowValues row) columnId of None \<Rightarrow> VUndefined | Some v \<Rightarrow> v)"

text \<open>
  \<open>Array.prototype.sort\<close> with a comparator. The language fixes the result only for a
  consistent comparator: the stable sorted order. The model is an insertion sort that takes
  each element in turn as the pivot, calls the comparator as \<open>cmp(pivot, e)\<close> on the elements
  \<open>e\<close> already placed, from the right, and moves the pivot in front of those it compares
  less than; \<open>insert_pivot\<close> holds the placed elements back to front. For a consistent
  comparator this is the stable sort. For a comparator that is negative on a tie in both
  argument orders it puts the later of two tied elements first.
\<close>

fun insert_pivot :: "('a \<Rightarrow> 'a \<Rightarrow> int) \<Rightarrow> 'a \<Rightarrow> 'a list \<Rightarrow> 'a list" where
  "insert_pivot cmp pivot [] = [pivot]"
| "insert_pivot cmp pivot (e # es) =
     (if cmp pivot e < 0 then e # insert_pivot cmp pivot es else pivot # e # es)"

definition array_sort :: "('a \<Rightarrow> 'a \<Rightarrow> int) \<Rightarrow> 'a list \<Rightarrow> 'a list" where
  "array_sort cmp xs = rev (fold (insert_pivot cmp) xs [])"

text \<open>Concrete rows and the attribute with options A, B, C, for the examples.\<close>

definition optionsABC :: "enum_item list" where
  "optionsABC = [\<lparr>item_value = VStr ''A'', item_label = ''A''\<rparr>,
                 \<lparr>item_value = VStr ''B'', item_label = ''B''\<rparr>,
                 \<lparr>item_value = VStr ''C'', item_label = ''C''\<rparr>]"

definition enumABC :: AttributeData where
  "enumABC = \<lparr>attrib_enum = Some optionsABC, attrib_type = Some ''string''\<rparr>"

definition mkRow :: "bool option \<Rightarrow> string \<Rightarrow> table_row" where
  "mkRow l v = \<lparr>isLoading = l, rowValues = [(''attrib_prio'', VStr v)]\<rparr>"

definition constSort :: "int \<Rightarrow> table_row sortingFn" where
  "constSort k rowA rowB columnId = k"

section \<open>Column layout store (ColumnSettingsProvider)\<close>

text \<open>
  The persisted configuration. A JavaScript object with string keys is an association list
  (\<open>Object.keys\<close> is the list of first components, a read is \<open>map_of\<close>); every field of the
  configuration may be missing, and so may \<open>left\<close> and \<open>right\<close> of the pinning state.
\<close>

type_synonym VisibilityState = "(string \<times> bool) list"
type_synonym ColumnOrderState = "string list"
type_synonym ColumnSizingState = "(string \<times> int) list"

record ColumnPinningState =
  left :: "string list option"
  right :: "string list option"

record ColumnsConfig =
  columnVisibility :: "VisibilityState option"
  columnOrder :: "ColumnOrderState option"
  columnPinning :: "ColumnPinningState option"
  columnSizing :: "ColumnSizingState option"

datatype error = TypeError

text \<open>
  What the body of the provider holds after its first statements: the configuration as
  received (\<open>columnsConfig\<close>), and the locals \<open>columnOrder\<close>, \<open>columnPinning\<close>,
  \<open>columnVisibility\<close> and \<open>columnsSizingExternal\<close>, with the defaults filled in and the
  default columns reconciled. The locals that share a name with a field of the configuration
  carry the prefix \<open>cur\<close>.
\<close>

record store =
  columnsConfig :: ColumnsConfig
  curOrder :: ColumnOrderState
  curPinning :: ColumnPinningState
  curVisibility :: VisibilityState
  columnsSizingExternal :: ColumnSizingState

definition defaultOrder :: "string list" where
  "defaultOrder = [''thumbnail'', ''name'', ''subType'', ''status'', ''tags'']"

text \<open>An array read \<open>xs[i]\<close>: \<open>undefined\<close> outside the bounds.\<close>

definition array_get :: "'a list \<Rightarrow> int \<Rightarrow> 'a option" where
  "array_get xs i = (if 0 \<le> i \<and> i < int (length xs) then Some (xs ! nat i) else None)"

text \<open>The truthiness of an optional string: \<open>undefined\<close> and the empty string are falsy.\<close>

fun truthy_str :: "string option \<Rightarrow> bool" where
  "truthy_str None = False"
| "truthy_str (Some s) = (s \<noteq> [])"

text \<open>\<open>Array.prototype.includes\<close>, also under optional chaining (\<open>undefined\<close> is falsy).\<close>

definition array_includes :: "'a list \<Rightarrow> 'a \<Rightarrow> bool" where
  "array_includes xs x = (x \<in> set xs)"

fun array_includes_opt :: "'a list option \<Rightarrow> 'a \<Rightarrow> bool" where
  "array_includes_opt None x = False"
| "array_includes_opt (Some xs) x = array_includes xs x"

text \<open>\<open>Array.prototype.indexOf\<close> and \<open>xs.splice(start, 0, x)\<close> for a start that is not negative.\<close>

definition indexOf :: "'a list \<Rightarrow> 'a \<Rightarrow> int" where
  "indexOf xs x = findIndex (\<lambda>y. y = x) xs"

definition splice_insert :: "int \<Rightarrow> 'a \<Rightarrow> 'a list \<Rightarrow> 'a list" where
  "splice_insert start x xs = take (nat start) xs @ x # drop (nat start) xs"

text \<open>
  One round of \<open>defaultOrder.forEach((col, i) => ...)\<close> on the locals \<open>columnOrder\<close> and
  \<open>columnPinning\<close>, which the callback mutates.
\<close>

definition reconcileDefault ::
  "string \<Rightarrow> nat \<Rightarrow> ColumnOrderState \<times> ColumnPinningState \<Rightarrow> ColumnOrderState \<times> ColumnPinningState" where
  "reconcileDefault col i st =
     (let ord = fst st; pin = snd st
      in if array_includes ord col then st
         else
           (let defaultBefore = array_get defaultOrder (int i - 1);
                columnAfter = array_get defaultOrder (int i + 1);
                ord' = (case defaultBefore of
                          None \<Rightarrow> col # ord
                        | Some b \<Rightarrow>
                            if \<not> truthy_str defaultBefore \<or> \<not> array_includes ord b then col # ord
                            else splice_insert (indexOf ord b + 1) col ord);
                pin' = (case columnAfter of
                          None \<Rightarrow> pin
                        | Some a \<Rightarrow>
                            (case left pin of
                               None \<Rightarrow> pin
                             | Some l \<Rightarrow>
                                 if truthy_str columnAfter \<and> array_includes l a
                                 then pin\<lparr>left := Some (col # l)\<rparr>
                                 else pin))
            in (ord', pin')))"

fun forEach_indexed ::
  "(string \<Rightarrow> nat \<Rightarrow> 's \<Rightarrow> 's) \<Rightarrow> string list \<Rightarrow> nat \<Rightarrow> 's \<Rightarrow> 's" where
  "forEach_indexed f [] i st = st"
| "forEach_indexed f (col # cols) i st = forEach_indexed f cols (Suc i) (f col i st)"

definition reconcileDefaults ::
  "ColumnOrderState \<times> ColumnPinningState \<Rightarrow> ColumnOrderState \<times> ColumnPinningState" where
  "reconcileDefaults st = forEach_indexed reconcileDefault defaultOrder 0 st"

text \<open>
  The provider up to the point where its operations are defined. Destructuring a
  configuration that is \<open>undefined\<close> throws; a missing field takes its default. A field
  is either missing or a value of its type (\<open>null\<close> is outside the model).
  \<open>columnOrderInit\<close> and \<open>columnPinningInit\<close> are the destructured fields with their
  defaults. \<open>providerStore\<close> is what the body holds once the destructuring has succeeded:
  every store the operations ever run on is one of these, so its order has been through the
  reconciliation.
\<close>

definition columnOrderInit :: "ColumnsConfig \<Rightarrow> ColumnOrderState" where
  "columnOrderInit cfg = (case columnOrder cfg of None \<Rightarrow> [] | Some x \<Rightarrow> x)"

definition columnPinningInit :: "ColumnsConfig \<Rightarrow> ColumnPinningState" where
  "columnPinningInit cfg =
     (case columnPinning cfg of None \<Rightarrow> \<lparr>left = None, right = None\<rparr> | Some p \<Rightarrow> p)"

definition providerStore :: "ColumnsConfig \<Rightarrow> store" where
  "providerStore cfg =
     (let vis = (case columnVisibility cfg of None \<Rightarrow> [] | Some v \<Rightarrow> v);
          siz = (case columnSizing cfg of None \<Rightarrow> [] | Some z \<Rightarrow> z);
          r = reconcileDefaults (columnOrderInit cfg, columnPinningInit cfg)
      in \<lparr>columnsConfig = cfg, curOrder = fst r, curPinning = snd r,
          curVisibility = vis, columnsSizingExternal = siz\<rparr>)"

definition ColumnSettingsProvider :: "ColumnsConfig option \<Rightarrow> error + store" where
  "ColumnSettingsProvider config =
     (case config of
        None \<Rightarrow> Inl TypeError
      | Some cfg \<Rightarrow> Inr (providerStore cfg))"

subsection \<open>Direct setters and reconciling updaters\<close>




definition togglePinningOnVisibilityChange :: "store \<Rightarrow> VisibilityState \<Rightarrow> ColumnPinningState" where
  "togglePinningOnVisibilityChange st visibility =
     (let newPinning = curPinning st;
          pinnedColumns = (case left newPinning of None \<Rightarrow> [] | Some l \<Rightarrow> l);
          hiddenColumns = filter (\<lambda>col. map_of visibility col = Some False) (map fst visibility);
          newPinnedColumns = filter (\<lambda>col. \<not> array_includes hiddenColumns col) pinnedColumns
      in newPinning\<lparr>left := Some newPinnedColumns\<rparr>)"

definition updatePinningOrderOnOrderChange :: "store \<Rightarrow> ColumnOrderState \<Rightarrow> ColumnPinningState" where
  "updatePinningOrderOnOrderChange st ord =
     (let newPinning = curPinning st;
          pinnedColumns = (case left newPinning of None \<Rightarrow> [] | Some l \<Rightarrow> l);
          pinnedColumnsOrder = filter (\<lambda>col. array_includes pinnedColumns col) ord
      in newPinning\<lparr>left := Some pinnedColumnsOrder\<rparr>)"

definition updateOrderOnPinningChange :: "store \<Rightarrow> ColumnPinningState \<Rightarrow> ColumnOrderState" where
  "updateOrderOnPinningChange st pinning =
     array_sort
       (\<lambda>a b. let aPinned = (if array_includes_opt (left pinning) a then 1 else 0);
                  bPinned = (if array_includes_opt (left pinning) b then 1 else 0)
              in bPinned - aPinned)
       (curOrder st)"

definition updateColumnVisibility :: "store \<Rightarrow> VisibilityState \<Rightarrow> ColumnsConfig" where
  "updateColumnVisibility st visibility =
     (let newPinning = togglePinningOnVisibilityChange st visibility
      in (columnsConfig st)\<lparr>columnVisibility := Some visibility, columnPinning := Some newPinning\<rparr>)"

definition updateColumnOrder :: "store \<Rightarrow> ColumnOrderState \<Rightarrow> ColumnsConfig" where
  "updateColumnOrder st ord =
     (let newPinning = updatePinningOrderOnOrderChange st ord
      in (columnsConfig st)\<lparr>columnOrder := Some ord, columnPinning := Some newPinning\<rparr>)"

definition updateColumnPinning :: "store \<Rightarrow> ColumnPinningState \<Rightarrow> ColumnsConfig" where
  "updateColumnPinning st pinning =
     (let newOrder = updateOrderOnPinningChange st pinning
      in (columnsConfig st)\<lparr>columnOrder := Some newOrder, columnPinning := Some pinning\<rparr>)"

section \<open>Sizing coalescer (setColumnSizing)\<close>

text \<open>
  The runtime around \<open>setColumnSizing\<close>, with time in milliseconds: the React state
  \<open>internalColumnSizing\<close>, the ref \<open>resizingTimeoutRef\<close>, the timeouts the runtime holds
  (each with the configuration and the sizing its callback closed over), and the calls of
  \<open>onChange\<close> made so far, oldest first.
\<close>

record timeout =
  timeoutId :: nat
  dueAt :: nat
  capturedConfig :: ColumnsConfig
  capturedSizing :: ColumnSizingState

record sizing_state =
  internalColumnSizing :: "ColumnSizingState option"
  resizingTimeoutRef :: "nat option"
  pendingTimeouts :: "timeout list"
  nextTimeoutId :: nat
  clock :: nat
  onChangeCalls :: "ColumnsConfig list"

definition initialSizing :: sizing_state where
  "initialSizing = \<lparr>internalColumnSizing = None, resizingTimeoutRef = None,
                     pendingTimeouts = [], nextTimeoutId = 1, clock = 0, onChangeCalls = []\<rparr>"

definition clearTimeout :: "nat \<Rightarrow> sizing_state \<Rightarrow> sizing_state" where
  "clearTimeout tid s = s\<lparr>pendingTimeouts := filter (\<lambda>t. timeoutId t \<noteq> tid) (pendingTimeouts s)\<rparr>"

definition setTimeout :: "ColumnsConfig \<Rightarrow> ColumnSizingState \<Rightarrow> nat \<Rightarrow> sizing_state \<Rightarrow> nat \<times> sizing_state" where
  "setTimeout cfg sizing delay s =
     (let tid = nextTimeoutId s
      in (tid, s\<lparr>pendingTimeouts := pendingTimeouts s @
                     [\<lparr>timeoutId = tid, dueAt = clock s + delay,
                       capturedConfig = cfg, capturedSizing = sizing\<rparr>],
                  nextTimeoutId := Suc tid\<rparr>))"

definition setColumnSizing :: "store \<Rightarrow> ColumnSizingState \<Rightarrow> sizing_state \<Rightarrow> sizing_state" where
  "setColumnSizing st sizing s =
     (let s1 = s\<lparr>internalColumnSizing := Some sizing\<rparr>;
          s2 = (case resizingTimeoutRef s1 of None \<Rightarrow> s1 | Some tid \<Rightarrow> clearTimeout tid s1);
          r = setTimeout (columnsConfig st) sizing 500 s2
      in (snd r)\<lparr>resizingTimeoutRef := Some (fst r)\<rparr>)"

text \<open>The callback of the timeout: the commit through \<open>onChange\<close>, then the overlay is reset.\<close>

definition fireTimeout :: "timeout \<Rightarrow> sizing_state \<Rightarrow> sizing_state" where
  "fireTimeout t s =
     s\<lparr>onChangeCalls := onChangeCalls s @ [(capturedConfig t)\<lparr>columnSizing := Some (capturedSizing t)\<rparr>],
       internalColumnSizing := None\<rparr>"

text \<open>
  Time passes: every timeout that is due by the new time runs, earliest first. The callback
  schedules nothing, so one pass is enough.
\<close>

definition elapse :: "nat \<Rightarrow> sizing_state \<Rightarrow> sizing_state" where
  "elapse dt s =
     (let now = clock s + dt;
          due = filter (\<lambda>t. dueAt t \<le> now) (pendingTimeouts s);
          rest = filter (\<lambda>t. \<not> dueAt t \<le> now) (pendingTimeouts s)
      in fold fireTimeout (sort_key dueAt due) (s\<lparr>clock := now, pendingTimeouts := rest\<rparr>))"

text \<open>The sizing that consumers read: \<open>internalColumnSizing || columnsSizingExternal\<close>.\<close>

definition columnSizing_read :: "store \<Rightarrow> sizing_state \<Rightarrow> ColumnSizingState" where
  "columnSizing_read st s =
     (case internalColumnSizing s of None \<Rightarrow> columnsSizingExternal st | Some z \<Rightarrow> z)"

text \<open>A resize gesture: calls of \<open>setColumnSizing\<close>, each after the given pause.\<close>

fun gesture :: "store \<Rightarrow> (nat \<times> ColumnSizingState) list \<Rightarrow> sizing_state \<Rightarrow> sizing_state" where
  "gesture st [] s = s"
| "gesture st (c # cs) s = gesture st cs (setColumnSizing st (snd c) (elapse (fst c) s))"

text \<open>
  Persisted configurations for the examples: an order, a left pin list and a visibility
  mapping. The stores of the examples are the ones the provider builds from them.
\<close>

definition mkConfig :: "string list \<Rightarrow> string list \<Rightarrow> VisibilityState \<Rightarrow> ColumnsConfig" where
  "mkConfig ord pinned vis =
     \<lparr>columnVisibility = Some vis, columnOrder = Some ord,
      columnPinning = Some \<lparr>left = Some pinned, right = None\<rparr>, columnSizing = None\<rparr>"

section \<open>Derived notions used by the properties\<close>

text \<open>
  The sorting function the builder gives an attribute column:
  \<open>withLoadingStateSort((a, b, c) => attribSort(a, b, c, attrib.data))\<close>.
\<close>

definition attribColumnSortingFn ::
  "(table_row \<Rightarrow> string \<Rightarrow> js_value) \<Rightarrow> table_row sortingFn \<Rightarrow> table_row sortingFn \<Rightarrow>
   AttributeData \<Rightarrow> table_row sortingFn" where
  "attribColumnSortingFn getCellValue datetime alphanumeric attribData =
     withLoadingStateSort
       (\<lambda>a b c. attribSort getCellValue datetime alphanumeric a b c (Some attribData))"

text \<open>
  An ascending sort of rows on a column: the rows sorted with the column's sorting function as
  the comparator, so a positive result puts the first row behind the second.
\<close>

definition sortRowsAscending :: "table_row sortingFn \<Rightarrow> string \<Rightarrow> table_row list \<Rightarrow> table_row list" where
  "sortRowsAscending sortingFn columnId rows = array_sort (\<lambda>a b. sortingFn a b columnId) rows"


text \<open>
  Two shapes of the coalescer's state. It is idle when nothing has been committed and no
  timeout is pending. It is armed with a sizing when nothing has been committed, the overlay
  holds that sizing, and the one pending timeout is the one the ref points to, due 500 ms from
  now, closed over that sizing and the configuration of the store.
\<close>

definition armed :: "store \<Rightarrow> ColumnSizingState \<Rightarrow> sizing_state \<Rightarrow> bool" where
  "armed st z s \<longleftrightarrow>
     onChangeCalls s = [] \<and> internalColumnSizing s = Some z \<and>
     (case pendingTimeouts s of
        [t] \<Rightarrow> resizingTimeoutRef s = Some (timeoutId t) \<and> dueAt t = clock s + 500 \<and>
               capturedSizing t = z \<and> capturedConfig t = columnsConfig st
      | _ \<Rightarrow> False)"

definition idle :: "sizing_state \<Rightarrow> bool" where
  "idle s \<longleftrightarrow> onChangeCalls s = [] \<and> pendingTimeouts s = []"

section \<open>Properties of the sort strategies\<close>

text \<open>
  C9. Whatever the underlying sorting function, when the \<open>isLoading\<close> flags of two rows differ
  the wrapped function puts the row that is loading behind the other (a positive result when
  the first row is the loading one, a negative one when the second is), and when the flags are
  equal it returns the result of the underlying function.
\<close>

theorem withLoadingStateSort_loading_last:
  "(isLoading rowA \<noteq> isLoading rowB \<longrightarrow>
      (truthy_flag (isLoading rowA) \<longrightarrow> 0 < withLoadingStateSort sortFn rowA rowB columnId) \<and>
      (truthy_flag (isLoading rowB) \<longrightarrow> withLoadingStateSort sortFn rowA rowB columnId < 0)) \<and>
   (isLoading rowA = isLoading rowB \<longrightarrow>
      withLoadingStateSort sortFn rowA rowB columnId = sortFn rowA rowB columnId)"
  by (cases "isLoading rowA"; cases "isLoading rowB") (auto simp: withLoadingStateSort_def)

theorem withLoadingStateSort_loading_last_witness:
  "0 < withLoadingStateSort (constSort (- 1)) (mkRow (Some True) ''A'') (mkRow (Some False) ''A'') ''attrib_prio'' \<and>
   withLoadingStateSort (constSort 1) (mkRow (Some False) ''A'') (mkRow (Some True) ''A'') ''attrib_prio'' < 0 \<and>
   withLoadingStateSort (constSort 7) (mkRow (Some False) ''A'') (mkRow (Some False) ''B'') ''attrib_prio'' = 7"
  using withLoadingStateSort_loading_last [of "mkRow (Some True) ''A''" "mkRow (Some False) ''A''" "constSort (- 1)" "''attrib_prio''"]
    withLoadingStateSort_loading_last [of "mkRow (Some False) ''A''" "mkRow (Some True) ''A''" "constSort 1" "''attrib_prio''"]
    withLoadingStateSort_loading_last [of "mkRow (Some False) ''A''" "mkRow (Some False) ''B''" "constSort 7" "''attrib_prio''"]
  by (simp add: mkRow_def constSort_def)

text \<open>
  C10. For an attribute with enum options the enum comparator never returns 0: when the values
  of the two rows have the same index in the option list (a row against itself, or two values
  that are both absent from the list) it returns \<open>-1\<close>, in both argument orders.
\<close>

theorem attribSort_enum_never_zero:
  "attrib_enum a = Some opts \<Longrightarrow>
   attribSort getCellValue datetime alphanumeric rowA rowB columnId (Some a) \<noteq> 0 \<and>
   (findIndex (\<lambda>opt. item_value opt = getCellValue rowA columnId) opts =
    findIndex (\<lambda>opt. item_value opt = getCellValue rowB columnId) opts \<longrightarrow>
      attribSort getCellValue datetime alphanumeric rowA rowB columnId (Some a) = - 1 \<and>
      attribSort getCellValue datetime alphanumeric rowB rowA columnId (Some a) = - 1) \<and>
   attribSort getCellValue datetime alphanumeric rowA rowA columnId (Some a) = - 1"
  by (simp add: attribSort_def Let_def)

theorem attribSort_enum_never_zero_witness:
  "attribSort lookupCell (constSort 0) (constSort 0) (mkRow None ''X'') (mkRow None ''Y'') ''attrib_prio'' (Some enumABC) = - 1 \<and>
   attribSort lookupCell (constSort 0) (constSort 0) (mkRow None ''Y'') (mkRow None ''X'') ''attrib_prio'' (Some enumABC) = - 1 \<and>
   attribSort lookupCell (constSort 0) (constSort 0) (mkRow None ''X'') (mkRow None ''X'') ''attrib_prio'' (Some enumABC) = - 1"
  using attribSort_enum_never_zero [where a = enumABC and opts = optionsABC
      and getCellValue = lookupCell and rowA = "mkRow None ''X''" and rowB = "mkRow None ''Y''"
      and columnId = "''attrib_prio''" and datetime = "constSort 0" and alphanumeric = "constSort 0"]
  by (simp add: enumABC_def optionsABC_def mkRow_def lookupCell_def findIndex_def)

text \<open>
  C1, on the code. With the options A, B, C in that order the sorting function of the column
  returns 1 for a row with A against a row with B, so A goes behind B, and an ascending sort of
  rows with C, A, B gives C, B, A: the reverse of the declared option order.
\<close>

theorem attribSort_enum_order_reversed:
  "attribColumnSortingFn lookupCell (constSort 0) (constSort 0) enumABC
      (mkRow None ''A'') (mkRow None ''B'') ''attrib_prio'' = 1 \<and>
   sortRowsAscending (attribColumnSortingFn lookupCell (constSort 0) (constSort 0) enumABC) ''attrib_prio''
      [mkRow None ''C'', mkRow None ''A'', mkRow None ''B'']
     = [mkRow None ''C'', mkRow None ''B'', mkRow None ''A'']"
  by (simp add: sortRowsAscending_def attribColumnSortingFn_def withLoadingStateSort_def
      array_sort_def attribSort_def lookupCell_def mkRow_def enumABC_def optionsABC_def findIndex_def)

section \<open>Properties of the default column reconciliation\<close>

text \<open>Inserting with \<open>splice\<close> adds the element and moves nothing else.\<close>

lemma set_splice_insert: "set (splice_insert n x xs) = insert x (set xs)"
proof -
  have "set (take (nat n) xs) \<union> set (drop (nat n) xs) = set xs"
    by (metis append_take_drop_id set_append)
  then show ?thesis by (auto simp: splice_insert_def)
qed

lemma filter_splice_insert:
  assumes "\<not> P x"
  shows "filter P (splice_insert n x xs) = filter P xs"
proof -
  have "filter P (splice_insert n x xs) = filter P (take (nat n) xs) @ filter P (drop (nat n) xs)"
    using assms by (simp add: splice_insert_def)
  also have "\<dots> = filter P (take (nat n) xs @ drop (nat n) xs)"
    by (simp only: filter_append)
  also have "\<dots> = filter P xs"
    by (simp only: append_take_drop_id)
  finally show ?thesis .
qed

lemma findIndex_from_split:
  "x \<in> set xs \<Longrightarrow>
   \<exists>pre post. xs = pre @ x # post \<and> x \<notin> set pre \<and> findIndex_from k (\<lambda>y. y = x) xs = k + int (length pre)"
proof (induction xs arbitrary: k)
  case Nil
  then show ?case by simp
next
  case (Cons a xs)
  show ?case
  proof (cases "a = x")
    case True
    then have "a # xs = [] @ x # xs \<and> x \<notin> set [] \<and> findIndex_from k (\<lambda>y. y = x) (a # xs) = k + int (length ([]::'a list))"
      by simp
    then show ?thesis by blast
  next
    case False
    with Cons.prems have "x \<in> set xs" by simp
    from Cons.IH [OF this, of "k + 1"] obtain pre post where
      h: "xs = pre @ x # post" "x \<notin> set pre" "findIndex_from (k + 1) (\<lambda>y. y = x) xs = k + 1 + int (length pre)"
      by blast
    with False have "a # xs = (a # pre) @ x # post \<and> x \<notin> set (a # pre) \<and>
        findIndex_from k (\<lambda>y. y = x) (a # xs) = k + int (length (a # pre))"
      by simp
    then show ?thesis by blast
  qed
qed

lemma splice_after:
  assumes "b \<in> set ord"
  shows "\<exists>pre post. ord = pre @ b # post \<and> b \<notin> set pre \<and>
           splice_insert (indexOf ord b + 1) col ord = pre @ b # col # post"
proof -
  from findIndex_from_split [OF assms, of 0] obtain pre post where
    h: "ord = pre @ b # post" "b \<notin> set pre" "indexOf ord b = int (length pre)"
    by (auto simp: indexOf_def findIndex_def)
  have "nat (int (length pre) + 1) = Suc (length pre)" by simp
  then have "splice_insert (indexOf ord b + 1) col ord = pre @ b # col # post"
    using h by (simp add: splice_insert_def)
  with h show ?thesis by blast
qed

lemma defaultOrder_nth:
  "array_get defaultOrder (- 1) = None"
  "array_get defaultOrder 0 = Some ''thumbnail''"
  "array_get defaultOrder 1 = Some ''name''"
  "array_get defaultOrder 2 = Some ''subType''"
  "array_get defaultOrder 3 = Some ''status''"
  "array_get defaultOrder 4 = Some ''tags''"
  "array_get defaultOrder 5 = None"
  by (simp_all add: array_get_def defaultOrder_def)


lemma reconcileDefault_present:
  "col \<in> set ord \<Longrightarrow> reconcileDefault col i (ord, pin) = (ord, pin)"
  by (simp add: reconcileDefault_def array_includes_def)

lemma reconcileDefault_set:
  "set (fst (reconcileDefault col i (ord, pin))) = insert col (set ord)"
  by (auto simp: reconcileDefault_def array_includes_def Let_def set_splice_insert
      split: option.splits)

lemma reconcileDefault_filter:
  assumes "col \<in> set ord \<or> \<not> P col"
  shows "filter P (fst (reconcileDefault col i (ord, pin))) = filter P ord"
proof (cases "col \<in> set ord")
  case True
  then show ?thesis by (simp add: reconcileDefault_present)
next
  case False
  with assms have "\<not> P col" by simp
  with False show ?thesis
    by (simp add: reconcileDefault_def array_includes_def Let_def filter_splice_insert
        split: option.splits)
qed

lemma reconcileDefaults_unfold:
  "reconcileDefaults st =
     reconcileDefault ''tags'' 4 (reconcileDefault ''status'' 3 (reconcileDefault ''subType'' 2
       (reconcileDefault ''name'' 1 (reconcileDefault ''thumbnail'' 0 st))))"
  by (simp add: reconcileDefaults_def defaultOrder_def numeral_eq_Suc)

lemma reconcileDefaults_set:
  "set (fst (reconcileDefaults (ord, pin))) = set defaultOrder \<union> set ord"
proof -
  have s: "\<And>col i st. set (fst (reconcileDefault col i st)) = insert col (set (fst st))"
    using reconcileDefault_set by (metis prod.collapse)
  show ?thesis
    by (simp only: reconcileDefaults_unfold s) (auto simp: defaultOrder_def)
qed

lemma reconcileDefaults_filter:
  "filter (\<lambda>x. x \<in> set ord) (fst (reconcileDefaults (ord, pin))) = ord"
proof -
  have s: "\<And>col i st. set ord \<subseteq> set (fst st) \<Longrightarrow>
      filter (\<lambda>x. x \<in> set ord) (fst (reconcileDefault col i st)) = filter (\<lambda>x. x \<in> set ord) (fst st)
      \<and> set ord \<subseteq> set (fst (reconcileDefault col i st))"
  proof -
    fix col i and st :: "ColumnOrderState \<times> ColumnPinningState"
    assume sub: "set ord \<subseteq> set (fst st)"
    have "col \<in> set (fst st) \<or> \<not> col \<in> set ord" using sub by auto
    then have "filter (\<lambda>x. x \<in> set ord) (fst (reconcileDefault col i (fst st, snd st)))
        = filter (\<lambda>x. x \<in> set ord) (fst st)"
      by (rule reconcileDefault_filter)
    moreover have "set (fst (reconcileDefault col i (fst st, snd st))) = insert col (set (fst st))"
      by (rule reconcileDefault_set)
    ultimately show "filter (\<lambda>x. x \<in> set ord) (fst (reconcileDefault col i st)) = filter (\<lambda>x. x \<in> set ord) (fst st)
      \<and> set ord \<subseteq> set (fst (reconcileDefault col i st))"
      using sub by auto
  qed
  define s0 where "s0 = (ord, pin)"
  define s1 where "s1 = reconcileDefault ''thumbnail'' 0 s0"
  define s2 where "s2 = reconcileDefault ''name'' 1 s1"
  define s3 where "s3 = reconcileDefault ''subType'' 2 s2"
  define s4 where "s4 = reconcileDefault ''status'' 3 s3"
  define s5 where "s5 = reconcileDefault ''tags'' 4 s4"
  have h0: "set ord \<subseteq> set (fst s0)" "filter (\<lambda>x. x \<in> set ord) (fst s0) = ord"
    by (simp_all add: s0_def)
  have h1: "set ord \<subseteq> set (fst s1)" "filter (\<lambda>x. x \<in> set ord) (fst s1) = ord"
    using s [OF h0(1), of "''thumbnail''" 0] h0(2) by (simp_all add: s1_def)
  have h2: "set ord \<subseteq> set (fst s2)" "filter (\<lambda>x. x \<in> set ord) (fst s2) = ord"
    using s [OF h1(1), of "''name''" 1] h1(2) by (simp_all add: s2_def)
  have h3: "set ord \<subseteq> set (fst s3)" "filter (\<lambda>x. x \<in> set ord) (fst s3) = ord"
    using s [OF h2(1), of "''subType''" 2] h2(2) by (simp_all add: s3_def)
  have h4: "set ord \<subseteq> set (fst s4)" "filter (\<lambda>x. x \<in> set ord) (fst s4) = ord"
    using s [OF h3(1), of "''status''" 3] h3(2) by (simp_all add: s4_def)
  have h5: "set ord \<subseteq> set (fst s5)" "filter (\<lambda>x. x \<in> set ord) (fst s5) = ord"
    using s [OF h4(1), of "''tags''" 4] h4(2) by (simp_all add: s5_def)
  have "reconcileDefaults (ord, pin) = s5"
    by (simp only: reconcileDefaults_unfold s5_def s4_def s3_def s2_def s1_def s0_def)
  with h5(2) show ?thesis by simp
qed


lemma defaultOrder_cases:
  "i < length defaultOrder \<Longrightarrow> i = 0 \<or> i = 1 \<or> i = 2 \<or> i = 3 \<or> i = 4"
  by (simp add: defaultOrder_def) arith

lemma array_get_nth:
  "i < length xs \<Longrightarrow> array_get xs (int i) = Some (xs ! i)"
  by (simp add: array_get_def)

lemma array_get_pred:
  "0 < i \<Longrightarrow> i < length defaultOrder \<Longrightarrow> array_get defaultOrder (int i - 1) = Some (defaultOrder ! (i - 1))"
  using array_get_nth [of "i - 1" defaultOrder] by (simp add: of_nat_diff)

lemma array_get_succ:
  "array_get defaultOrder (int i + 1) =
     (if Suc i < length defaultOrder then Some (defaultOrder ! Suc i) else None)"
  by (simp add: array_get_def nat_add_distrib)

lemma defaultOrder_truthy: "i < length defaultOrder \<Longrightarrow> defaultOrder ! i \<noteq> []"
  by (drule defaultOrder_cases) (auto simp: defaultOrder_def)

lemma reconcileDefault_front:
  assumes "col \<notin> set ord" and "i = 0 \<or> defaultOrder ! (i - 1) \<notin> set ord" and "i < length defaultOrder"
  shows "fst (reconcileDefault col i (ord, pin)) = col # ord"
proof (cases "i = 0")
  case True
  with assms(1) show ?thesis
    by (simp add: reconcileDefault_def array_includes_def Let_def defaultOrder_nth)
next
  case False
  with assms have "array_get defaultOrder (int i - 1) = Some (defaultOrder ! (i - 1))"
    and "defaultOrder ! (i - 1) \<notin> set ord"
    by (simp_all add: array_get_pred)
  with assms(1) show ?thesis
    by (simp add: reconcileDefault_def array_includes_def Let_def)
qed

lemma reconcileDefault_after:
  assumes "col \<notin> set ord" and "0 < i" and "defaultOrder ! (i - 1) \<in> set ord" and "i < length defaultOrder"
  shows "\<exists>pre post. ord = pre @ defaultOrder ! (i - 1) # post \<and> defaultOrder ! (i - 1) \<notin> set pre \<and>
           fst (reconcileDefault col i (ord, pin)) = pre @ defaultOrder ! (i - 1) # col # post"
proof -
  have g: "array_get defaultOrder (int i - 1) = Some (defaultOrder ! (i - 1))"
    using assms by (simp add: array_get_pred)
  have t: "defaultOrder ! (i - 1) \<noteq> []"
    using assms by (simp add: defaultOrder_truthy)
  have "fst (reconcileDefault col i (ord, pin)) =
          splice_insert (indexOf ord (defaultOrder ! (i - 1)) + 1) col ord"
    using assms(1,3) g t by (simp add: reconcileDefault_def array_includes_def Let_def)
  with splice_after [OF assms(3), of col] show ?thesis by simp
qed

lemma forEach_indexed_set:
  "set (fst (forEach_indexed reconcileDefault cols k st)) = set cols \<union> set (fst st)"
proof (induction cols arbitrary: k st)
  case Nil
  then show ?case by simp
next
  case (Cons c cols)
  have "set (fst (reconcileDefault c k st)) = insert c (set (fst st))"
    using reconcileDefault_set [of c k "fst st" "snd st"] by simp
  with Cons.IH [of "Suc k" "reconcileDefault c k st"] show ?case by simp
qed

lemma missing_now_iff_missing_persisted:
  assumes "i < length defaultOrder"
  shows "defaultOrder ! i \<in> set (fst (forEach_indexed reconcileDefault (take i defaultOrder) 0 (ord0, pin0)))
           \<longleftrightarrow> defaultOrder ! i \<in> set ord0"
proof -
  have "distinct defaultOrder" by (simp add: defaultOrder_def)
  then have "defaultOrder ! i \<notin> set (take i defaultOrder)"
    using assms by (auto simp: in_set_conv_nth nth_eq_iff_index_eq)
  then show ?thesis by (simp add: forEach_indexed_set)
qed



lemma reconcileDefault_set_st:
  "set (fst (reconcileDefault col i st)) = insert col (set (fst st))"
  using reconcileDefault_set [of col i "fst st" "snd st"] by simp

lemma adjacent_insert_after:
  assumes "ord = pre @ p # c # post" and "p \<notin> set pre"
    and "ord = a @ e # b" and "e \<noteq> p" and "x \<noteq> p"
  shows "\<exists>pre' post'. a @ e # x # b = pre' @ p # c # post' \<and> p \<notin> set pre'"
proof -
  from assms(1,3) have "pre @ p # c # post = a @ e # b" by simp
  then consider us where "pre = a @ us" "us @ p # c # post = e # b"
    | us where "pre @ us = a" "p # c # post = us @ e # b"
    by (auto simp: append_eq_append_conv2)
  then show ?thesis
  proof cases
    case 1
    with assms(4) obtain us' where "us = e # us'" "b = us' @ p # c # post"
      by (cases us) auto
    with 1 assms(2,5) have "a @ e # x # b = (a @ e # x # us') @ p # c # post \<and> p \<notin> set (a @ e # x # us')"
      by auto
    then show ?thesis by blast
  next
    case 2
    with assms(4) obtain us' where u: "us = p # us'" "c # post = us' @ e # b"
      by (cases us) auto
    show ?thesis
    proof (cases us')
      case Nil
      with u 2 assms(2) have "a @ e # x # b = pre @ p # c # x # post \<and> p \<notin> set pre"
        by auto
      then show ?thesis by blast
    next
      case (Cons c' us'')
      with u 2 assms(2) have "a @ e # x # b = pre @ p # c # (us'' @ e # x # b) \<and> p \<notin> set pre"
        by auto
      then show ?thesis by blast
    qed
  qed
qed

lemma reconcileDefault_keeps_adjacent:
  assumes adj: "\<exists>pre post. fst st = pre @ p # c # post \<and> p \<notin> set pre"
    and col: "col \<noteq> p" and before: "array_get defaultOrder (int j - 1) \<noteq> Some p"
  shows "\<exists>pre post. fst (reconcileDefault col j st) = pre @ p # c # post \<and> p \<notin> set pre"
proof -
  obtain ord pin where st: "st = (ord, pin)" by (cases st)
  from adj st obtain pre post where o: "ord = pre @ p # c # post" "p \<notin> set pre" by auto
  have front: "\<exists>pre' post'. col # ord = pre' @ p # c # post' \<and> p \<notin> set pre'"
  proof -
    from o col have "col # ord = (col # pre) @ p # c # post \<and> p \<notin> set (col # pre)" by simp
    then show ?thesis by blast
  qed
  show ?thesis
  proof (cases "col \<in> set ord")
    case True
    with adj st show ?thesis by (simp add: reconcileDefault_present)
  next
    case False
    show ?thesis
    proof (cases "array_get defaultOrder (int j - 1)")
      case None
      with False front st show ?thesis
        by (simp add: reconcileDefault_def array_includes_def Let_def)
    next
      case (Some b)
      show ?thesis
      proof (cases "b \<noteq> [] \<and> b \<in> set ord")
        case False
        with \<open>col \<notin> set ord\<close> Some front st show ?thesis
          by (auto simp: reconcileDefault_def array_includes_def Let_def)
      next
        case True
        from splice_after [of b ord col] True obtain a bb where
          s: "ord = a @ b # bb" "splice_insert (indexOf ord b + 1) col ord = a @ b # col # bb"
          by blast
        from before Some have "b \<noteq> p" by simp
        from adjacent_insert_after [OF o s(1) this col]
        have "\<exists>pre' post'. a @ b # col # bb = pre' @ p # c # post' \<and> p \<notin> set pre'" .
        with s(2) True \<open>col \<notin> set ord\<close> Some st show ?thesis
          by (simp add: reconcileDefault_def array_includes_def Let_def)
      qed
    qed
  qed
qed

lemma reconcileDefault_makes_adjacent:
  assumes "col \<notin> set (fst st)" and "0 < i" and "defaultOrder ! (i - 1) \<in> set (fst st)"
    and "i < length defaultOrder"
  shows "\<exists>pre post. fst (reconcileDefault col i st) = pre @ defaultOrder ! (i - 1) # col # post \<and>
           defaultOrder ! (i - 1) \<notin> set pre"
  using reconcileDefault_after [OF assms(1,2,3,4), of "snd st"] by auto

lemma reconcileDefault_keeps_head:
  assumes "fst st = h # rest" and "array_get defaultOrder (int j - 1) = Some b"
    and "b \<noteq> []" and "b \<in> set (fst st)"
  shows "\<exists>rest'. fst (reconcileDefault col j st) = h # rest'"
proof -
  obtain ord pin where st: "st = (ord, pin)" by (cases st)
  show ?thesis
  proof (cases "col \<in> set ord")
    case True
    with assms(1) st show ?thesis by (simp add: reconcileDefault_present)
  next
    case False
    from splice_after [of b ord col] assms(4) st obtain a bb where
      s: "ord = a @ b # bb" "splice_insert (indexOf ord b + 1) col ord = a @ b # col # bb"
      by auto
    from s(1) assms(1) st have "\<exists>rest'. a @ b # col # bb = h # rest'"
      by (cases a) auto
    with s(2) False assms(2,3,4) st show ?thesis
      by (simp add: reconcileDefault_def array_includes_def Let_def)
  qed
qed

text \<open>
  Through the whole loop: an id that was missing ends right behind the first occurrence of
  its predecessor, and a missing thumbnail ends at the very front.
\<close>

lemma pred_facts:
  "array_get defaultOrder (int 1 - 1) = Some ''thumbnail''"
  "array_get defaultOrder (int 2 - 1) = Some ''name''"
  "array_get defaultOrder (int 3 - 1) = Some ''subType''"
  "array_get defaultOrder (int 4 - 1) = Some ''status''"
  by (simp_all add: array_get_def defaultOrder_def)

lemma reconcileDefaults_adjacent:
  assumes "0 < i" and "i < length defaultOrder" and "defaultOrder ! i \<notin> set ord0"
  shows "\<exists>pre post. fst (reconcileDefaults (ord0, pin0))
             = pre @ defaultOrder ! (i - 1) # defaultOrder ! i # post \<and>
           defaultOrder ! (i - 1) \<notin> set pre"
proof -
  define s0 where "s0 = (ord0, pin0)"
  define s1 where "s1 = reconcileDefault ''thumbnail'' 0 s0"
  define s2 where "s2 = reconcileDefault ''name'' 1 s1"
  define s3 where "s3 = reconcileDefault ''subType'' 2 s2"
  define s4 where "s4 = reconcileDefault ''status'' 3 s3"
  define s5 where "s5 = reconcileDefault ''tags'' 4 s4"
  have r: "reconcileDefaults (ord0, pin0) = s5"
    by (simp only: reconcileDefaults_unfold s5_def s4_def s3_def s2_def s1_def s0_def)
  have set1: "set (fst s1) = insert ''thumbnail'' (set ord0)"
    by (simp add: s1_def s0_def reconcileDefault_set_st)
  have set2: "set (fst s2) = insert ''name'' (set (fst s1))"
    by (simp add: s2_def reconcileDefault_set_st)
  have set3: "set (fst s3) = insert ''subType'' (set (fst s2))"
    by (simp add: s3_def reconcileDefault_set_st)
  have set4: "set (fst s4) = insert ''status'' (set (fst s3))"
    by (simp add: s4_def reconcileDefault_set_st)
  have len: "1 < length defaultOrder" "2 < length defaultOrder" "3 < length defaultOrder"
    "4 < length defaultOrder"
    and nth: "defaultOrder ! (1 - 1) = ''thumbnail''" "defaultOrder ! (2 - 1) = ''name''"
    "defaultOrder ! (3 - 1) = ''subType''" "defaultOrder ! (4 - 1) = ''status''"
    "defaultOrder ! 1 = ''name''" "defaultOrder ! 2 = ''subType''"
    "defaultOrder ! 3 = ''status''" "defaultOrder ! 4 = ''tags''"
    by (simp_all add: defaultOrder_def)
  from defaultOrder_cases [OF assms(2)] assms(1)
  consider "i = 1" | "i = 2" | "i = 3" | "i = 4" by auto
  then show ?thesis
  proof cases
    case 1
    with assms(3) have m: "''name'' \<notin> set (fst s1)" "defaultOrder ! (1 - 1) \<in> set (fst s1)"
      by (simp_all add: set1 defaultOrder_def)
    from reconcileDefault_makes_adjacent [OF m(1) _ m(2) len(1)]
    have "\<exists>pre post. fst s2 = pre @ ''thumbnail'' # ''name'' # post \<and> ''thumbnail'' \<notin> set pre"
      by (simp add: s2_def defaultOrder_def)
    then have "\<exists>pre post. fst s3 = pre @ ''thumbnail'' # ''name'' # post \<and> ''thumbnail'' \<notin> set pre"
      unfolding s3_def by (rule reconcileDefault_keeps_adjacent) (simp_all add: defaultOrder_nth)
    then have "\<exists>pre post. fst s4 = pre @ ''thumbnail'' # ''name'' # post \<and> ''thumbnail'' \<notin> set pre"
      unfolding s4_def by (rule reconcileDefault_keeps_adjacent) (simp_all add: defaultOrder_nth)
    then have "\<exists>pre post. fst s5 = pre @ ''thumbnail'' # ''name'' # post \<and> ''thumbnail'' \<notin> set pre"
      unfolding s5_def by (rule reconcileDefault_keeps_adjacent) (simp_all add: defaultOrder_nth)
    with 1 r show ?thesis by (simp add: defaultOrder_def)
  next
    case 2
    with assms(3) have m: "''subType'' \<notin> set (fst s2)" "defaultOrder ! (2 - 1) \<in> set (fst s2)"
      by (simp_all add: set1 set2 defaultOrder_def)
    from reconcileDefault_makes_adjacent [OF m(1) _ m(2) len(2)]
    have "\<exists>pre post. fst s3 = pre @ ''name'' # ''subType'' # post \<and> ''name'' \<notin> set pre"
      by (simp add: s3_def defaultOrder_def)
    then have "\<exists>pre post. fst s4 = pre @ ''name'' # ''subType'' # post \<and> ''name'' \<notin> set pre"
      unfolding s4_def by (rule reconcileDefault_keeps_adjacent) (simp_all add: defaultOrder_nth)
    then have "\<exists>pre post. fst s5 = pre @ ''name'' # ''subType'' # post \<and> ''name'' \<notin> set pre"
      unfolding s5_def by (rule reconcileDefault_keeps_adjacent) (simp_all add: defaultOrder_nth)
    with 2 r show ?thesis by (simp add: defaultOrder_def)
  next
    case 3
    with assms(3) have m: "''status'' \<notin> set (fst s3)" "defaultOrder ! (3 - 1) \<in> set (fst s3)"
      by (simp_all add: set1 set2 set3 defaultOrder_def)
    from reconcileDefault_makes_adjacent [OF m(1) _ m(2) len(3)]
    have "\<exists>pre post. fst s4 = pre @ ''subType'' # ''status'' # post \<and> ''subType'' \<notin> set pre"
      by (simp add: s4_def defaultOrder_def)
    then have "\<exists>pre post. fst s5 = pre @ ''subType'' # ''status'' # post \<and> ''subType'' \<notin> set pre"
      unfolding s5_def by (rule reconcileDefault_keeps_adjacent) (simp_all add: defaultOrder_nth)
    with 3 r show ?thesis by (simp add: defaultOrder_def)
  next
    case 4
    with assms(3) have m: "''tags'' \<notin> set (fst s4)" "defaultOrder ! (4 - 1) \<in> set (fst s4)"
      by (simp_all add: set1 set2 set3 set4 defaultOrder_def)
    from reconcileDefault_makes_adjacent [OF m(1) _ m(2) len(4)]
    have "\<exists>pre post. fst s5 = pre @ ''status'' # ''tags'' # post \<and> ''status'' \<notin> set pre"
      by (simp add: s5_def defaultOrder_def)
    with 4 r show ?thesis by (simp add: defaultOrder_def)
  qed
qed

lemma reconcileDefaults_front:
  assumes "defaultOrder ! 0 \<notin> set ord0"
  shows "\<exists>post. fst (reconcileDefaults (ord0, pin0)) = defaultOrder ! 0 # post"
proof -
  define s0 where "s0 = (ord0, pin0)"
  define s1 where "s1 = reconcileDefault ''thumbnail'' 0 s0"
  define s2 where "s2 = reconcileDefault ''name'' 1 s1"
  define s3 where "s3 = reconcileDefault ''subType'' 2 s2"
  define s4 where "s4 = reconcileDefault ''status'' 3 s3"
  define s5 where "s5 = reconcileDefault ''tags'' 4 s4"
  have r: "reconcileDefaults (ord0, pin0) = s5"
    by (simp only: reconcileDefaults_unfold s5_def s4_def s3_def s2_def s1_def s0_def)
  have set1: "''thumbnail'' \<in> set (fst s1)"
    by (simp add: s1_def reconcileDefault_set_st)
  have set2: "''name'' \<in> set (fst s2)"
    by (simp add: s2_def reconcileDefault_set_st)
  have set3: "''subType'' \<in> set (fst s3)"
    by (simp add: s3_def reconcileDefault_set_st)
  have set4: "''status'' \<in> set (fst s4)"
    by (simp add: s4_def reconcileDefault_set_st)
  from assms have "''thumbnail'' \<notin> set ord0" by (simp add: defaultOrder_def)
  then have "fst s1 = ''thumbnail'' # ord0"
    by (simp add: s1_def s0_def reconcileDefault_front defaultOrder_def)
  then obtain r1 where h1: "fst s1 = ''thumbnail'' # r1" by blast
  from reconcileDefault_keeps_head [OF h1 pred_facts(1) _ set1, of "''name''"]
  obtain r2 where h2: "fst s2 = ''thumbnail'' # r2" by (auto simp: s2_def)
  from reconcileDefault_keeps_head [OF h2 pred_facts(2) _ set2, of "''subType''"]
  obtain r3 where h3: "fst s3 = ''thumbnail'' # r3" by (auto simp: s3_def)
  from reconcileDefault_keeps_head [OF h3 pred_facts(3) _ set3, of "''status''"]
  obtain r4 where h4: "fst s4 = ''thumbnail'' # r4" by (auto simp: s4_def)
  from reconcileDefault_keeps_head [OF h4 pred_facts(4) _ set4, of "''tags''"]
  obtain r5 where h5: "fst s5 = ''thumbnail'' # r5" by (auto simp: s5_def)
  with r show ?thesis by (simp add: defaultOrder_def)
qed

lemma curOrder_providerStore:
  "curOrder (providerStore cfg) = fst (reconcileDefaults (columnOrderInit cfg, columnPinningInit cfg))"
  by (simp add: providerStore_def Let_def)


text \<open>
  C6. The reconciliation goes through thumbnail, name, subType, status, tags in that order.
  An id of that list is missing from the order the loop holds at its turn exactly when it is
  missing from the persisted order; an id that is present changes nothing; a missing id goes
  to the very front when it has no predecessor in the list or the predecessor is absent from
  the current order, and otherwise right behind the first occurrence of the predecessor. The
  provider returns for every configuration, and its order is the persisted order taken
  through these five steps in this sequence. That order contains all five ids; the persisted
  order is what remains of it when the inserted ids are left out (no id of the persisted
  order is dropped, duplicated or moved past another); thumbnail, when it was missing, is its
  first element; and every other id that was missing stands right behind the first
  occurrence of its predecessor.
\<close>

theorem default_reconciliation:
  "(i < length defaultOrder \<and> col = defaultOrder ! i \<longrightarrow>
      (col \<in> set (fst (forEach_indexed reconcileDefault (take i defaultOrder) 0 (ord0, pin0)))
         \<longleftrightarrow> col \<in> set ord0) \<and>
      (col \<in> set ord \<longrightarrow> reconcileDefault col i (ord, pin) = (ord, pin)) \<and>
      (col \<notin> set ord \<and> (i = 0 \<or> defaultOrder ! (i - 1) \<notin> set ord) \<longrightarrow>
         fst (reconcileDefault col i (ord, pin)) = col # ord) \<and>
      (col \<notin> set ord \<and> 0 < i \<and> defaultOrder ! (i - 1) \<in> set ord \<longrightarrow>
         (\<exists>pre post. ord = pre @ defaultOrder ! (i - 1) # post \<and> defaultOrder ! (i - 1) \<notin> set pre \<and>
            fst (reconcileDefault col i (ord, pin)) = pre @ defaultOrder ! (i - 1) # col # post))) \<and>
   (\<exists>st. ColumnSettingsProvider (Some cfg) = Inr st \<and>
      curOrder st =
        fst (reconcileDefault ''tags'' 4 (reconcileDefault ''status'' 3 (reconcileDefault ''subType'' 2
          (reconcileDefault ''name'' 1 (reconcileDefault ''thumbnail'' 0
            (columnOrderInit cfg, columnPinningInit cfg)))))) \<and>
      set defaultOrder \<subseteq> set (curOrder st) \<and>
      filter (\<lambda>x. x \<in> set (columnOrderInit cfg)) (curOrder st) = columnOrderInit cfg \<and>
      (defaultOrder ! 0 \<notin> set (columnOrderInit cfg) \<longrightarrow>
         (\<exists>post. curOrder st = defaultOrder ! 0 # post)) \<and>
      (\<forall>k. 0 < k \<and> k < length defaultOrder \<and> defaultOrder ! k \<notin> set (columnOrderInit cfg) \<longrightarrow>
         (\<exists>pre post. curOrder st = pre @ defaultOrder ! (k - 1) # defaultOrder ! k # post \<and>
            defaultOrder ! (k - 1) \<notin> set pre)))"
proof (intro conjI impI)
  assume "i < length defaultOrder \<and> col = defaultOrder ! i"
  then show "col \<in> set (fst (forEach_indexed reconcileDefault (take i defaultOrder) 0 (ord0, pin0)))
         \<longleftrightarrow> col \<in> set ord0"
    by (simp add: missing_now_iff_missing_persisted)
next
  assume "col \<in> set ord"
  then show "reconcileDefault col i (ord, pin) = (ord, pin)"
    by (rule reconcileDefault_present)
next
  assume "i < length defaultOrder \<and> col = defaultOrder ! i"
    and "col \<notin> set ord \<and> (i = 0 \<or> defaultOrder ! (i - 1) \<notin> set ord)"
  then show "fst (reconcileDefault col i (ord, pin)) = col # ord"
    by (simp add: reconcileDefault_front)
next
  assume "i < length defaultOrder \<and> col = defaultOrder ! i"
    and "col \<notin> set ord \<and> 0 < i \<and> defaultOrder ! (i - 1) \<in> set ord"
  then have "col \<notin> set ord" "0 < i" "defaultOrder ! (i - 1) \<in> set ord" "i < length defaultOrder"
    by simp_all
  from reconcileDefault_after [OF this]
  show "\<exists>pre post. ord = pre @ defaultOrder ! (i - 1) # post \<and> defaultOrder ! (i - 1) \<notin> set pre \<and>
            fst (reconcileDefault col i (ord, pin)) = pre @ defaultOrder ! (i - 1) # col # post" .
next
  let ?st = "providerStore cfg"
  have 1: "ColumnSettingsProvider (Some cfg) = Inr ?st"
    by (simp add: ColumnSettingsProvider_def)
  have 2: "curOrder ?st =
        fst (reconcileDefault ''tags'' 4 (reconcileDefault ''status'' 3 (reconcileDefault ''subType'' 2
          (reconcileDefault ''name'' 1 (reconcileDefault ''thumbnail'' 0
            (columnOrderInit cfg, columnPinningInit cfg))))))"
    by (simp only: curOrder_providerStore reconcileDefaults_unfold)
  have 3: "set defaultOrder \<subseteq> set (curOrder ?st)"
    by (simp add: curOrder_providerStore reconcileDefaults_set)
  have 4: "filter (\<lambda>x. x \<in> set (columnOrderInit cfg)) (curOrder ?st) = columnOrderInit cfg"
    by (simp only: curOrder_providerStore reconcileDefaults_filter)
  have 5: "defaultOrder ! 0 \<notin> set (columnOrderInit cfg) \<longrightarrow>
         (\<exists>post. curOrder ?st = defaultOrder ! 0 # post)"
    by (simp only: curOrder_providerStore) (blast intro: reconcileDefaults_front)
  have 6: "\<forall>k. 0 < k \<and> k < length defaultOrder \<and> defaultOrder ! k \<notin> set (columnOrderInit cfg) \<longrightarrow>
         (\<exists>pre post. curOrder ?st = pre @ defaultOrder ! (k - 1) # defaultOrder ! k # post \<and>
            defaultOrder ! (k - 1) \<notin> set pre)"
    by (simp only: curOrder_providerStore) (blast intro: reconcileDefaults_adjacent)
  from 1 2 3 4 5 6
  show "\<exists>st. ColumnSettingsProvider (Some cfg) = Inr st \<and>
      curOrder st =
        fst (reconcileDefault ''tags'' 4 (reconcileDefault ''status'' 3 (reconcileDefault ''subType'' 2
          (reconcileDefault ''name'' 1 (reconcileDefault ''thumbnail'' 0
            (columnOrderInit cfg, columnPinningInit cfg)))))) \<and>
      set defaultOrder \<subseteq> set (curOrder st) \<and>
      filter (\<lambda>x. x \<in> set (columnOrderInit cfg)) (curOrder st) = columnOrderInit cfg \<and>
      (defaultOrder ! 0 \<notin> set (columnOrderInit cfg) \<longrightarrow>
         (\<exists>post. curOrder st = defaultOrder ! 0 # post)) \<and>
      (\<forall>k. 0 < k \<and> k < length defaultOrder \<and> defaultOrder ! k \<notin> set (columnOrderInit cfg) \<longrightarrow>
         (\<exists>pre post. curOrder st = pre @ defaultOrder ! (k - 1) # defaultOrder ! k # post \<and>
            defaultOrder ! (k - 1) \<notin> set pre))"
    by blast
qed

theorem default_reconciliation_witness:
  "fst (reconcileDefault ''thumbnail'' 0 ([''custom1''], \<lparr>left = None, right = None\<rparr>))
     = [''thumbnail'', ''custom1''] \<and>
   (\<exists>pre post. [''status'', ''custom1'', ''name''] = pre @ ''name'' # post \<and> ''name'' \<notin> set pre \<and>
      fst (reconcileDefault ''subType'' 2 ([''status'', ''custom1'', ''name''], \<lparr>left = None, right = None\<rparr>))
        = pre @ ''name'' # ''subType'' # post) \<and>
   reconcileDefault ''name'' 1 ([''name''], \<lparr>left = None, right = None\<rparr>)
     = ([''name''], \<lparr>left = None, right = None\<rparr>) \<and>
   (\<exists>st. ColumnSettingsProvider (Some (mkConfig [''status'', ''custom1'', ''name''] [] [])) = Inr st \<and>
      set defaultOrder \<subseteq> set (curOrder st) \<and>
      filter (\<lambda>x. x \<in> set [''status'', ''custom1'', ''name'']) (curOrder st)
        = [''status'', ''custom1'', ''name''] \<and>
      (\<exists>post. curOrder st = ''thumbnail'' # post) \<and>
      (\<exists>pre post. curOrder st = pre @ ''name'' # ''subType'' # post \<and> ''name'' \<notin> set pre) \<and>
      (\<exists>pre post. curOrder st = pre @ ''status'' # ''tags'' # post \<and> ''status'' \<notin> set pre)) \<and>
   curOrder (providerStore (mkConfig [''status'', ''custom1'', ''name''] [] []))
     = [''thumbnail'', ''status'', ''tags'', ''custom1'', ''name'', ''subType'']"
proof -
  let ?p = "\<lparr>left = None, right = None\<rparr>"
  let ?cfg = "mkConfig [''status'', ''custom1'', ''name''] [] []"
  have h0: "0 < length defaultOrder \<and> ''thumbnail'' = defaultOrder ! 0"
    and h1: "1 < length defaultOrder \<and> ''name'' = defaultOrder ! 1"
    and h2: "2 < length defaultOrder \<and> ''subType'' = defaultOrder ! 2"
    and p2: "defaultOrder ! (2 - 1) = ''name''"
    and p4: "defaultOrder ! (4 - 1) = ''status''"
    and n0: "defaultOrder ! 0 = ''thumbnail''"
    and n2: "defaultOrder ! 2 = ''subType''"
    and n4: "defaultOrder ! 4 = ''tags''"
    by (simp_all add: defaultOrder_def)
  have c0: "''thumbnail'' \<notin> set [''custom1''] \<and> ((0::nat) = 0 \<or> defaultOrder ! (0 - 1) \<notin> set [''custom1''])"
    by simp
  have c1: "''name'' \<in> set [''name'']"
    by simp
  have c2: "''subType'' \<notin> set [''status'', ''custom1'', ''name''] \<and> 0 < (2::nat) \<and>
            defaultOrder ! (2 - 1) \<in> set [''status'', ''custom1'', ''name'']"
    by (simp add: defaultOrder_def)
  from default_reconciliation [of 0 "''thumbnail''" "[''custom1'']" ?p "[''custom1'']" ?p ?cfg] h0 c0
  have a: "fst (reconcileDefault ''thumbnail'' 0 ([''custom1''], ?p)) = [''thumbnail'', ''custom1'']"
    by blast
  from default_reconciliation [of 2 "''subType''" "[]" ?p "[''status'', ''custom1'', ''name'']" ?p ?cfg] h2 c2
  have "\<exists>pre post. [''status'', ''custom1'', ''name''] = pre @ defaultOrder ! (2 - 1) # post \<and>
          defaultOrder ! (2 - 1) \<notin> set pre \<and>
          fst (reconcileDefault ''subType'' 2 ([''status'', ''custom1'', ''name''], ?p))
            = pre @ defaultOrder ! (2 - 1) # ''subType'' # post"
    by blast
  then have b: "\<exists>pre post. [''status'', ''custom1'', ''name''] = pre @ ''name'' # post \<and> ''name'' \<notin> set pre \<and>
      fst (reconcileDefault ''subType'' 2 ([''status'', ''custom1'', ''name''], ?p))
        = pre @ ''name'' # ''subType'' # post"
    by (simp only: p2)
  from default_reconciliation [of 1 "''name''" "[]" ?p "[''name'']" ?p ?cfg] h1 c1
  have c: "reconcileDefault ''name'' 1 ([''name''], ?p) = ([''name''], ?p)"
    by blast
  have o: "columnOrderInit ?cfg = [''status'', ''custom1'', ''name'']"
    by (simp add: columnOrderInit_def mkConfig_def)
  have m0: "defaultOrder ! 0 \<notin> set [''status'', ''custom1'', ''name'']"
    and m2: "0 < (2::nat) \<and> 2 < length defaultOrder \<and>
             defaultOrder ! 2 \<notin> set [''status'', ''custom1'', ''name'']"
    and m4: "0 < (4::nat) \<and> 4 < length defaultOrder \<and>
             defaultOrder ! 4 \<notin> set [''status'', ''custom1'', ''name'']"
    by (simp_all add: defaultOrder_def)
  from default_reconciliation [of 1 "''name''" "[]" ?p "[''name'']" ?p ?cfg]
  obtain st where st: "ColumnSettingsProvider (Some ?cfg) = Inr st"
    "set defaultOrder \<subseteq> set (curOrder st)"
    "filter (\<lambda>x. x \<in> set (columnOrderInit ?cfg)) (curOrder st) = columnOrderInit ?cfg"
    "defaultOrder ! 0 \<notin> set (columnOrderInit ?cfg) \<longrightarrow> (\<exists>post. curOrder st = defaultOrder ! 0 # post)"
    "\<forall>k. 0 < k \<and> k < length defaultOrder \<and> defaultOrder ! k \<notin> set (columnOrderInit ?cfg) \<longrightarrow>
         (\<exists>pre post. curOrder st = pre @ defaultOrder ! (k - 1) # defaultOrder ! k # post \<and>
            defaultOrder ! (k - 1) \<notin> set pre)"
    by blast
  from st(4) m0 have d0: "\<exists>post. curOrder st = ''thumbnail'' # post"
    unfolding o n0 by blast
  from st(5) m2 have "\<exists>pre post. curOrder st = pre @ defaultOrder ! (2 - 1) # defaultOrder ! 2 # post \<and>
            defaultOrder ! (2 - 1) \<notin> set pre"
    unfolding o by blast
  then have d2: "\<exists>pre post. curOrder st = pre @ ''name'' # ''subType'' # post \<and> ''name'' \<notin> set pre"
    by (simp only: p2 n2)
  from st(5) m4 have "\<exists>pre post. curOrder st = pre @ defaultOrder ! (4 - 1) # defaultOrder ! 4 # post \<and>
            defaultOrder ! (4 - 1) \<notin> set pre"
    unfolding o by blast
  then have d4: "\<exists>pre post. curOrder st = pre @ ''status'' # ''tags'' # post \<and> ''status'' \<notin> set pre"
    by (simp only: p4 n4)
  from st(1,2) st(3) [unfolded o] d0 d2 d4
  have d: "\<exists>st. ColumnSettingsProvider (Some ?cfg) = Inr st \<and>
      set defaultOrder \<subseteq> set (curOrder st) \<and>
      filter (\<lambda>x. x \<in> set [''status'', ''custom1'', ''name'']) (curOrder st)
        = [''status'', ''custom1'', ''name''] \<and>
      (\<exists>post. curOrder st = ''thumbnail'' # post) \<and>
      (\<exists>pre post. curOrder st = pre @ ''name'' # ''subType'' # post \<and> ''name'' \<notin> set pre) \<and>
      (\<exists>pre post. curOrder st = pre @ ''status'' # ''tags'' # post \<and> ''status'' \<notin> set pre)"
    by blast
  have e: "curOrder (providerStore ?cfg)
     = [''thumbnail'', ''status'', ''tags'', ''custom1'', ''name'', ''subType'']"
    by code_simp
  from a b c d e show ?thesis by blast
qed

text \<open>
  C7, as stated, fails: the successor only has to be in the pin list, not in the order. With
  an empty order and name pinned, inserting thumbnail changes the pin list although name is
  not in the order.
\<close>

theorem reconcileDefault_pins_without_order_counterexample:
  "\<not> ((''name'' \<notin> set [] \<or> ''name'' \<notin> set [''name'']) \<longrightarrow>
        snd (reconcileDefault ''thumbnail'' 0 ([], \<lparr>left = Some [''name''], right = None\<rparr>))
          = \<lparr>left = Some [''name''], right = None\<rparr>)"
  by (simp add: reconcileDefault_def array_includes_def Let_def defaultOrder_nth)


text \<open>
  C7, amended. When a missing id of the canonical list is inserted, it is prepended to
  \<open>pinning.left\<close> if it has a successor in the canonical list, the pin list exists and the
  successor is in the pin list (whether or not the successor is in the order); in every other
  case the pinning is unchanged for that insertion.
\<close>

theorem reconcileDefault_pins_with_successor:
  assumes "i < length defaultOrder" and "col = defaultOrder ! i" and "col \<notin> set ord"
  shows "(\<forall>l. left pin = Some l \<and> Suc i < length defaultOrder \<and> defaultOrder ! Suc i \<in> set l \<longrightarrow>
            snd (reconcileDefault col i (ord, pin)) = pin\<lparr>left := Some (col # l)\<rparr>) \<and>
         (left pin = None \<or> \<not> Suc i < length defaultOrder \<or>
            (\<exists>l. left pin = Some l \<and> defaultOrder ! Suc i \<notin> set l) \<longrightarrow>
            snd (reconcileDefault col i (ord, pin)) = pin)"
proof -
  have t: "Suc i < length defaultOrder \<Longrightarrow> defaultOrder ! Suc i \<noteq> []"
    by (rule defaultOrder_truthy)
  show ?thesis
    using assms(3) t
    by (auto simp: reconcileDefault_def array_includes_def Let_def array_get_succ split: option.splits)
qed

theorem reconcileDefault_pins_with_successor_witness:
  "snd (reconcileDefault ''thumbnail'' 0 ([], \<lparr>left = Some [''name''], right = None\<rparr>))
     = \<lparr>left = Some [''thumbnail'', ''name''], right = None\<rparr> \<and>
   snd (reconcileDefault ''thumbnail'' 0 ([''name''], \<lparr>left = Some [''custom1''], right = None\<rparr>))
     = \<lparr>left = Some [''custom1''], right = None\<rparr>"
proof -
  have h1: "0 < length defaultOrder" "''thumbnail'' = defaultOrder ! 0" "''thumbnail'' \<notin> set []"
    by (simp_all add: defaultOrder_def)
  have h2: "''thumbnail'' \<notin> set [''name'']" by simp
  have s: "Suc 0 < length defaultOrder" "defaultOrder ! Suc 0 = ''name''"
    by (simp_all add: defaultOrder_def)
  from reconcileDefault_pins_with_successor [OF h1, of "\<lparr>left = Some [''name''], right = None\<rparr>"] s
  have a: "snd (reconcileDefault ''thumbnail'' 0 ([], \<lparr>left = Some [''name''], right = None\<rparr>))
     = \<lparr>left = Some [''thumbnail'', ''name''], right = None\<rparr>"
    by simp
  from reconcileDefault_pins_with_successor [OF h1(1,2) h2, of "\<lparr>left = Some [''custom1''], right = None\<rparr>"] s
  have b: "snd (reconcileDefault ''thumbnail'' 0 ([''name''], \<lparr>left = Some [''custom1''], right = None\<rparr>))
     = \<lparr>left = Some [''custom1''], right = None\<rparr>"
    by simp
  from a b show ?thesis by simp
qed

section \<open>Properties of the column layout store\<close>

text \<open>
  The comparator of \<open>updateOrderOnPinningChange\<close> is a difference of two flags. Sorting with
  such a comparator is a stable partition: the flagged elements first, then the others.
\<close>

lemma insert_pivot_partition:
  assumes cmp: "\<And>a b. cmp a b = (if P b then 1 else 0) - (if P a then (1::int) else 0)"
    and qs: "\<forall>y \<in> set qs. \<not> P y" and ps: "\<forall>y \<in> set ps. P y"
  shows "insert_pivot cmp x (qs @ ps) = (if P x then qs @ x # ps else x # qs @ ps)"
  using qs
proof (induction qs)
  case Nil
  then show ?case using ps by (cases ps) (simp_all add: cmp)
next
  case (Cons q qs)
  then show ?case by (simp add: cmp)
qed

lemma fold_insert_pivot_partition:
  assumes cmp: "\<And>a b. cmp a b = (if P b then 1 else 0) - (if P a then (1::int) else 0)"
  shows "fold (insert_pivot cmp) xs (rev (filter (\<lambda>x. \<not> P x) ys) @ rev (filter P ys))
           = rev (filter (\<lambda>x. \<not> P x) (ys @ xs)) @ rev (filter P (ys @ xs))"
proof (induction xs arbitrary: ys)
  case Nil
  then show ?case by simp
next
  case (Cons x xs)
  have "insert_pivot cmp x (rev (filter (\<lambda>x. \<not> P x) ys) @ rev (filter P ys))
          = (if P x then rev (filter (\<lambda>x. \<not> P x) ys) @ x # rev (filter P ys)
             else x # rev (filter (\<lambda>x. \<not> P x) ys) @ rev (filter P ys))"
    by (rule insert_pivot_partition [OF cmp]) simp_all
  also have "\<dots> = rev (filter (\<lambda>x. \<not> P x) (ys @ [x])) @ rev (filter P (ys @ [x]))"
    by simp
  finally have "fold (insert_pivot cmp) (x # xs) (rev (filter (\<lambda>x. \<not> P x) ys) @ rev (filter P ys))
      = fold (insert_pivot cmp) xs (rev (filter (\<lambda>x. \<not> P x) (ys @ [x])) @ rev (filter P (ys @ [x])))"
    by simp
  also have "\<dots> = rev (filter (\<lambda>x. \<not> P x) ((ys @ [x]) @ xs)) @ rev (filter P ((ys @ [x]) @ xs))"
    by (rule Cons.IH)
  finally show ?case by simp
qed

lemma array_sort_partition:
  assumes cmp: "\<And>a b. cmp a b = (if P b then 1 else 0) - (if P a then (1::int) else 0)"
  shows "array_sort cmp xs = filter P xs @ filter (\<lambda>x. \<not> P x) xs"
  using fold_insert_pivot_partition [OF cmp, where xs = xs and ys = "[]"]
  by (simp add: array_sort_def)


lemma columnsConfig_providerStore: "columnsConfig (providerStore cfg) = cfg"
  by (simp add: providerStore_def Let_def)

lemma provider_returns: "ColumnSettingsProvider (Some cfg) = Inr (providerStore cfg)"
  by (simp add: ColumnSettingsProvider_def)

text \<open>The order the provider holds for the persisted order a, b, c, d.\<close>

lemma curOrder_abcd:
  "curOrder (providerStore (mkConfig [''a'', ''b'', ''c'', ''d''] [] []))
     = [''thumbnail'', ''name'', ''subType'', ''status'', ''tags'', ''a'', ''b'', ''c'', ''d'']"
  by code_simp

text \<open>
  C3, as stated, fails in its example: the order the store holds is the persisted order after
  the reconciliation of the default columns, never a, b, c, d alone. From the persisted order
  a, b, c, d the provider holds thumbnail, name, subType, status, tags, a, b, c, d, and
  \<open>updateColumnPinning\<close> with \<open>left = [c]\<close> does not hand over c, a, b, d.
\<close>

theorem updateColumnPinning_defaults_counterexample:
  "ColumnSettingsProvider (Some (mkConfig [''a'', ''b'', ''c'', ''d''] [] []))
     = Inr (providerStore (mkConfig [''a'', ''b'', ''c'', ''d''] [] [])) \<and>
   columnOrder (updateColumnPinning (providerStore (mkConfig [''a'', ''b'', ''c'', ''d''] [] []))
        \<lparr>left = Some [''c''], right = None\<rparr>)
     \<noteq> Some [''c'', ''a'', ''b'', ''d'']"
  by (simp add: provider_returns updateColumnPinning_def updateOrderOnPinningChange_def
      curOrder_abcd array_sort_def array_includes_def Let_def)

text \<open>
  C3, amended. For every store and every new pinning, \<open>updateColumnPinning\<close> hands to
  \<open>onChange\<close>, in one configuration, the new pinning and the order that is the stable
  partition of the current order: the ids in \<open>pinning.left\<close> first, then the others, both in
  their relative order. For a store the provider returns, the current order is the persisted
  order after the reconciliation, so it contains the five default ids. From the persisted
  order a, b, c, d and \<open>left = [c]\<close> the order handed over is c, thumbnail, name, subType,
  status, tags, a, b, d.
\<close>

theorem updateColumnPinning_stable_partition:
  "updateColumnPinning st pinning =
     (columnsConfig st)\<lparr>columnOrder :=
         Some (filter (\<lambda>c. array_includes_opt (left pinning) c) (curOrder st) @
               filter (\<lambda>c. \<not> array_includes_opt (left pinning) c) (curOrder st)),
       columnPinning := Some pinning\<rparr> \<and>
   (ColumnSettingsProvider (Some cfg) = Inr st \<longrightarrow>
      columnsConfig st = cfg \<and>
      curOrder st = fst (reconcileDefaults (columnOrderInit cfg, columnPinningInit cfg)) \<and>
      set defaultOrder \<subseteq> set (curOrder st))"
proof
  have "updateOrderOnPinningChange st pinning =
          filter (\<lambda>c. array_includes_opt (left pinning) c) (curOrder st) @
          filter (\<lambda>c. \<not> array_includes_opt (left pinning) c) (curOrder st)"
    unfolding updateOrderOnPinningChange_def
    by (rule array_sort_partition) (simp add: Let_def)
  then show "updateColumnPinning st pinning =
     (columnsConfig st)\<lparr>columnOrder :=
         Some (filter (\<lambda>c. array_includes_opt (left pinning) c) (curOrder st) @
               filter (\<lambda>c. \<not> array_includes_opt (left pinning) c) (curOrder st)),
       columnPinning := Some pinning\<rparr>"
    by (simp add: updateColumnPinning_def)
next
  show "ColumnSettingsProvider (Some cfg) = Inr st \<longrightarrow>
      columnsConfig st = cfg \<and>
      curOrder st = fst (reconcileDefaults (columnOrderInit cfg, columnPinningInit cfg)) \<and>
      set defaultOrder \<subseteq> set (curOrder st)"
    by (auto simp: provider_returns curOrder_providerStore columnsConfig_providerStore
        reconcileDefaults_set)
qed


theorem updateColumnPinning_stable_partition_witness:
  "ColumnSettingsProvider (Some (mkConfig [''a'', ''b'', ''c'', ''d''] [] []))
     = Inr (providerStore (mkConfig [''a'', ''b'', ''c'', ''d''] [] [])) \<and>
   set defaultOrder \<subseteq> set (curOrder (providerStore (mkConfig [''a'', ''b'', ''c'', ''d''] [] []))) \<and>
   columnOrder (updateColumnPinning (providerStore (mkConfig [''a'', ''b'', ''c'', ''d''] [] []))
        \<lparr>left = Some [''c''], right = None\<rparr>)
     = Some [''c'', ''thumbnail'', ''name'', ''subType'', ''status'', ''tags'', ''a'', ''b'', ''d''] \<and>
   columnPinning (updateColumnPinning (providerStore (mkConfig [''a'', ''b'', ''c'', ''d''] [] []))
        \<lparr>left = Some [''c''], right = None\<rparr>)
     = Some \<lparr>left = Some [''c''], right = None\<rparr>"
proof -
  let ?cfg = "mkConfig [''a'', ''b'', ''c'', ''d''] [] []"
  let ?st = "providerStore ?cfg"
  let ?pin = "\<lparr>left = Some [''c''], right = None\<rparr>"
  note T = updateColumnPinning_stable_partition [of ?st ?pin ?cfg]
  have r: "ColumnSettingsProvider (Some ?cfg) = Inr ?st"
    by (rule provider_returns)
  from T r have s: "set defaultOrder \<subseteq> set (curOrder ?st)" by blast
  from T have "updateColumnPinning ?st ?pin =
      (columnsConfig ?st)\<lparr>columnOrder :=
         Some (filter (\<lambda>c. array_includes_opt (left ?pin) c) (curOrder ?st) @
               filter (\<lambda>c. \<not> array_includes_opt (left ?pin) c) (curOrder ?st)),
       columnPinning := Some ?pin\<rparr>"
    by blast
  then have u: "updateColumnPinning ?st ?pin =
      (columnsConfig ?st)\<lparr>columnOrder :=
         Some [''c'', ''thumbnail'', ''name'', ''subType'', ''status'', ''tags'', ''a'', ''b'', ''d''],
       columnPinning := Some ?pin\<rparr>"
    by (simp add: curOrder_abcd array_includes_def)
  from r s u show ?thesis by simp
qed


text \<open>
  C4. For every current pinning and every new order, \<open>updateColumnOrder\<close> hands to \<open>onChange\<close>,
  in one configuration, the new order and a pinning whose \<open>left\<close> is the subsequence of the new
  order made of the ids currently pinned. From \<open>left = [b, d]\<close> and the new order d, c, b, a the
  pin list is d, b.
\<close>

theorem updateColumnOrder_pins_follow_order:
  "updateColumnOrder st ord =
     (columnsConfig st)\<lparr>columnOrder := Some ord,
       columnPinning := Some ((curPinning st)\<lparr>left :=
          Some (filter (\<lambda>c. c \<in> set (case left (curPinning st) of None \<Rightarrow> [] | Some l \<Rightarrow> l)) ord)\<rparr>)\<rparr>"
  by (simp add: updateColumnOrder_def updatePinningOrderOnOrderChange_def array_includes_def Let_def)


lemma curPinning_abcd_bd:
  "curPinning (providerStore (mkConfig [''a'', ''b'', ''c'', ''d''] [''b'', ''d''] []))
     = \<lparr>left = Some [''b'', ''d''], right = None\<rparr>"
  by code_simp

theorem updateColumnOrder_pins_follow_order_witness:
  "columnPinning (updateColumnOrder (providerStore (mkConfig [''a'', ''b'', ''c'', ''d''] [''b'', ''d''] []))
        [''d'', ''c'', ''b'', ''a''])
     = Some \<lparr>left = Some [''d'', ''b''], right = None\<rparr> \<and>
   columnOrder (updateColumnOrder (providerStore (mkConfig [''a'', ''b'', ''c'', ''d''] [''b'', ''d''] []))
        [''d'', ''c'', ''b'', ''a''])
     = Some [''d'', ''c'', ''b'', ''a'']"
  using updateColumnOrder_pins_follow_order
    [of "providerStore (mkConfig [''a'', ''b'', ''c'', ''d''] [''b'', ''d''] [])" "[''d'', ''c'', ''b'', ''a'']"]
  by (simp add: curPinning_abcd_bd)


text \<open>The hidden columns are the ids whose entry in the visibility mapping is \<open>false\<close>.\<close>

lemma hidden_iff:
  "array_includes (filter (\<lambda>col. map_of visibility col = Some False) (map fst visibility)) c
     \<longleftrightarrow> map_of visibility c = Some False"
  by (auto simp: array_includes_def dest: map_of_SomeD intro: rev_image_eqI)


text \<open>
  C5. For every current pinning and every new visibility mapping, \<open>updateColumnVisibility\<close>
  hands to \<open>onChange\<close>, in one configuration, the new visibility and a pinning whose \<open>left\<close> is
  the current pin list without exactly the ids whose entry in the new visibility is \<open>false\<close>;
  the ids that are absent from the mapping or mapped to \<open>true\<close> stay, in their order. From
  \<open>left = [x, y]\<close> and the visibility \<open>{x: false}\<close> the pin list is y.
\<close>

theorem updateColumnVisibility_unpins_hidden:
  "updateColumnVisibility st visibility =
     (columnsConfig st)\<lparr>columnVisibility := Some visibility,
       columnPinning := Some ((curPinning st)\<lparr>left :=
          Some (filter (\<lambda>c. map_of visibility c \<noteq> Some False)
                  (case left (curPinning st) of None \<Rightarrow> [] | Some l \<Rightarrow> l))\<rparr>)\<rparr>"
  by (simp add: updateColumnVisibility_def togglePinningOnVisibilityChange_def hidden_iff Let_def)


lemma curPinning_xy:
  "curPinning (providerStore (mkConfig [''x'', ''y''] [''x'', ''y''] []))
     = \<lparr>left = Some [''x'', ''y''], right = None\<rparr>"
  by code_simp

theorem updateColumnVisibility_unpins_hidden_witness:
  "columnPinning (updateColumnVisibility (providerStore (mkConfig [''x'', ''y''] [''x'', ''y''] []))
        [(''x'', False)])
     = Some \<lparr>left = Some [''y''], right = None\<rparr> \<and>
   columnVisibility (updateColumnVisibility (providerStore (mkConfig [''x'', ''y''] [''x'', ''y''] []))
        [(''x'', False)])
     = Some [(''x'', False)]"
  using updateColumnVisibility_unpins_hidden
    [of "providerStore (mkConfig [''x'', ''y''] [''x'', ''y''] [])" "[(''x'', False)]"]
  by (simp add: curPinning_xy)










section \<open>Properties of the sizing coalescer\<close>

text \<open>Before its timeout is due an armed state only ages; a call re-arms it.\<close>

lemma elapse_armed_early:
  assumes "armed st z s" and "dt < 500"
  shows "elapse dt s = s\<lparr>clock := clock s + dt\<rparr>"
proof -
  from assms(1) obtain t where t: "pendingTimeouts s = [t]" "dueAt t = clock s + 500"
    by (auto simp: armed_def split: list.splits)
  with assms(2) show ?thesis by (simp add: elapse_def Let_def)
qed

lemma elapse_idle: "idle s \<Longrightarrow> elapse dt s = s\<lparr>clock := clock s + dt\<rparr>"
  by (simp add: idle_def elapse_def Let_def)

lemma setColumnSizing_idle:
  assumes "idle s"
  shows "armed st z (setColumnSizing st z (s\<lparr>clock := c\<rparr>))"
  using assms
  by (simp add: idle_def armed_def setColumnSizing_def setTimeout_def clearTimeout_def Let_def
      split: option.splits)

lemma setColumnSizing_armed:
  assumes "armed st z0 s"
  shows "armed st z (setColumnSizing st z (s\<lparr>clock := c\<rparr>))"
proof -
  from assms obtain t where t: "pendingTimeouts s = [t]" "resizingTimeoutRef s = Some (timeoutId t)"
    and o: "onChangeCalls s = []"
    by (auto simp: armed_def split: list.splits)
  then show ?thesis
    by (simp add: armed_def setColumnSizing_def setTimeout_def clearTimeout_def Let_def)
qed


lemma armed_step:
  assumes "idle s \<or> (\<exists>z0. armed st z0 s \<and> gap < 500)"
  shows "armed st z (setColumnSizing st z (elapse gap s))"
  using assms
proof
  assume "idle s"
  then show ?thesis by (simp add: elapse_idle setColumnSizing_idle)
next
  assume "\<exists>z0. armed st z0 s \<and> gap < 500"
  then obtain z0 where "armed st z0 s" "gap < 500" by blast
  then show ?thesis by (simp add: elapse_armed_early [of st z0] setColumnSizing_armed [of st z0])
qed

lemma gesture_armed:
  assumes "cs \<noteq> []" and "\<forall>c \<in> set (tl cs). fst c < 500"
    and "idle s \<or> (\<exists>z0. armed st z0 s \<and> fst (hd cs) < 500)"
  shows "armed st (snd (last cs)) (gesture st cs s)"
  using assms
proof (induction cs arbitrary: s)
  case Nil
  then show ?case by simp
next
  case (Cons c cs)
  let ?s' = "setColumnSizing st (snd c) (elapse (fst c) s)"
  from Cons.prems(3) have a: "armed st (snd c) ?s'"
    by (intro armed_step) simp
  show ?case
  proof (cases "cs = []")
    case True
    with a show ?thesis by simp
  next
    case False
    then have "hd cs \<in> set cs" by simp
    with Cons.prems(2) have h: "fst (hd cs) < 500" by simp
    have t: "\<forall>c \<in> set (tl cs). fst c < 500"
      using Cons.prems(2) False by (auto dest: list.set_sel(2))
    from a h have "idle ?s' \<or> (\<exists>z0. armed st z0 ?s' \<and> fst (hd cs) < 500)" by blast
    from Cons.IH [OF False t this] False show ?thesis by simp
  qed
qed

lemma idle_initial: "idle initialSizing"
  by (simp add: idle_def initialSizing_def)

lemma armed_quiet:
  assumes "armed st z s" and "dt < 500"
  shows "onChangeCalls (elapse dt s) = [] \<and> columnSizing_read st (elapse dt s) = z"
  using assms elapse_armed_early [OF assms]
  by (simp add: armed_def columnSizing_read_def)

lemma armed_commit:
  assumes "armed st z s" and "500 \<le> dt"
  shows "onChangeCalls (elapse dt s) = [(columnsConfig st)\<lparr>columnSizing := Some z\<rparr>] \<and>
         internalColumnSizing (elapse dt s) = None \<and>
         columnSizing_read st (elapse dt s) = columnsSizingExternal st \<and>
         pendingTimeouts (elapse dt s) = []"
proof -
  from assms(1) obtain t where t: "pendingTimeouts s = [t]" "dueAt t = clock s + 500"
    "capturedSizing t = z" "capturedConfig t = columnsConfig st" "onChangeCalls s = []"
    by (auto simp: armed_def split: list.splits)
  with assms(2) show ?thesis
    by (simp add: elapse_def Let_def fireTimeout_def columnSizing_read_def)
qed

text \<open>
  C8. Take any non-empty sequence of \<open>setColumnSizing\<close> calls from the initial state in which
  every call but the first comes less than 500 ms after the one before. No prefix of the
  sequence has committed anything; less than 500 ms after the last call there is still no
  commit and reads give the sizing of the last call; from 500 ms on there is exactly one
  commit, the configuration with the sizing of the last call, the overlay is cleared and reads
  give the durable sizing. With \<open>{a: 100}\<close> and then \<open>{a: 120}\<close> the one commit carries
  \<open>{a: 120}\<close>.
\<close>

theorem setColumnSizing_coalesces:
  assumes "calls \<noteq> []" and "\<forall>c \<in> set (tl calls). fst c < 500"
  shows "(\<forall>n. onChangeCalls (gesture st (take n calls) initialSizing) = []) \<and>
         (\<forall>dt. dt < 500 \<longrightarrow>
            onChangeCalls (elapse dt (gesture st calls initialSizing)) = [] \<and>
            columnSizing_read st (elapse dt (gesture st calls initialSizing)) = snd (last calls)) \<and>
         (\<forall>dt. 500 \<le> dt \<longrightarrow>
            onChangeCalls (elapse dt (gesture st calls initialSizing))
              = [(columnsConfig st)\<lparr>columnSizing := Some (snd (last calls))\<rparr>] \<and>
            internalColumnSizing (elapse dt (gesture st calls initialSizing)) = None \<and>
            columnSizing_read st (elapse dt (gesture st calls initialSizing)) = columnsSizingExternal st \<and>
            pendingTimeouts (elapse dt (gesture st calls initialSizing)) = [])"
proof -
  have a: "armed st (snd (last calls)) (gesture st calls initialSizing)"
    using gesture_armed [OF assms, of initialSizing st] idle_initial by simp
  have p: "onChangeCalls (gesture st (take n calls) initialSizing) = []" for n
  proof (cases "take n calls = []")
    case True
    show ?thesis unfolding True by (simp add: initialSizing_def)
  next
    case False
    have "set (tl (take n calls)) \<subseteq> set (tl calls)"
      by (simp add: tl_take set_take_subset)
    with assms(2) have "\<forall>c \<in> set (tl (take n calls)). fst c < 500" by blast
    from gesture_armed [OF False this, of initialSizing st] idle_initial
    show ?thesis by (simp add: armed_def)
  qed
  from p armed_quiet [OF a] armed_commit [OF a] show ?thesis by blast
qed

theorem setColumnSizing_coalesces_witness:
  "onChangeCalls (gesture (providerStore (mkConfig [] [] [])) [(0, [(''a'', 100)]), (100, [(''a'', 120)])] initialSizing) = [] \<and>
   onChangeCalls (elapse 499 (gesture (providerStore (mkConfig [] [] [])) [(0, [(''a'', 100)]), (100, [(''a'', 120)])] initialSizing)) = [] \<and>
   columnSizing_read (providerStore (mkConfig [] [] [])) (elapse 499 (gesture (providerStore (mkConfig [] [] [])) [(0, [(''a'', 100)]), (100, [(''a'', 120)])] initialSizing))
     = [(''a'', 120)] \<and>
   onChangeCalls (elapse 500 (gesture (providerStore (mkConfig [] [] [])) [(0, [(''a'', 100)]), (100, [(''a'', 120)])] initialSizing))
     = [(columnsConfig (providerStore (mkConfig [] [] [])))\<lparr>columnSizing := Some [(''a'', 120)]\<rparr>] \<and>
   columnSizing_read (providerStore (mkConfig [] [] [])) (elapse 500 (gesture (providerStore (mkConfig [] [] [])) [(0, [(''a'', 100)]), (100, [(''a'', 120)])] initialSizing))
     = columnsSizingExternal (providerStore (mkConfig [] [] []))"
proof -
  let ?calls = "[(0::nat, [(''a'', 100::int)]), (100, [(''a'', 120)])]"
  have h1: "?calls \<noteq> []" by simp
  have h2: "\<forall>c \<in> set (tl ?calls). fst c < 500" by simp
  note T = setColumnSizing_coalesces [OF h1 h2, of "providerStore (mkConfig [] [] [])"]
  from T have "onChangeCalls (gesture (providerStore (mkConfig [] [] [])) (take 2 ?calls) initialSizing) = []" by blast
  then have a: "onChangeCalls (gesture (providerStore (mkConfig [] [] [])) ?calls initialSizing) = []" by simp
  have "(499::nat) < 500" by simp
  with T have b: "onChangeCalls (elapse 499 (gesture (providerStore (mkConfig [] [] [])) ?calls initialSizing)) = [] \<and>
      columnSizing_read (providerStore (mkConfig [] [] [])) (elapse 499 (gesture (providerStore (mkConfig [] [] [])) ?calls initialSizing)) = snd (last ?calls)"
    by blast
  have "(500::nat) \<le> 500" by simp
  with T have c: "onChangeCalls (elapse 500 (gesture (providerStore (mkConfig [] [] [])) ?calls initialSizing))
        = [(columnsConfig (providerStore (mkConfig [] [] [])))\<lparr>columnSizing := Some (snd (last ?calls))\<rparr>] \<and>
      columnSizing_read (providerStore (mkConfig [] [] [])) (elapse 500 (gesture (providerStore (mkConfig [] [] [])) ?calls initialSizing))
        = columnsSizingExternal (providerStore (mkConfig [] [] []))"
    by blast
  have l: "snd (last ?calls) = [(''a'', 120)]" by simp
  from a b c show ?thesis unfolding l by blast
qed

end
